theory Spec2Isabelle
  imports Main "HOL-Library.Product_Lexorder" "HOL-Library.Multiset"
begin

section \<open>Common JavaScript conventions\<close>

text \<open>
  An ObjectId is represented by the string its \<^verbatim>\<open>toString()\<close> returns; a value that may
  be \<^verbatim>\<open>null\<close> or \<^verbatim>\<open>undefined\<close> is an option. A \<^verbatim>\<open>Date\<close> is its number of
  milliseconds since the epoch.
\<close>

type_synonym objectId = string
type_synonym date = int

text \<open>
  JavaScript truthiness of an identifier argument, as tested by \<^verbatim>\<open>!venueId\<close> and
  \<^verbatim>\<open>if (excludeId)\<close>: \<^verbatim>\<open>null\<close>, \<^verbatim>\<open>undefined\<close> and the empty string are falsy,
  every other identifier is truthy.
\<close>

definition truthy :: "objectId option \<Rightarrow> bool" where
  "truthy v = (case v of None \<Rightarrow> False | Some s \<Rightarrow> s \<noteq> [])"

text \<open>
  Calling \<^verbatim>\<open>x.toString()\<close> on \<^verbatim>\<open>null\<close> or \<^verbatim>\<open>undefined\<close> throws a TypeError.
\<close>

datatype error = TypeError

text \<open>
  The comparison \<^verbatim>\<open>a.userId.toString() === userId.toString()\<close>: the left operand is
  evaluated first, either \<^verbatim>\<open>toString()\<close> throws on a missing value.
\<close>

definition same_user :: "objectId option \<Rightarrow> objectId option \<Rightarrow> error + bool" where
  "same_user stored given =
     (case stored of
        None \<Rightarrow> Inl TypeError
      | Some a \<Rightarrow> (case given of None \<Rightarrow> Inl TypeError | Some b \<Rightarrow> Inr (a = b)))"

section \<open>Rehearsal model (server/src/models/Rehearsal.js)\<close>

record recurringPattern =
  frequency :: "string option"
  dayOfWeek :: "int option"
  interval :: "int option"
  endDate :: "date option"

record attendee =
  userId :: "objectId option"
  status :: string
  responseTime :: "date option"

record rehearsal =
  r_id :: objectId
  groupId :: "objectId option"
  venueId :: "objectId option"
  title :: "string option"
  description :: "string option"
  startDateTime :: date
  endDateTime :: date
  isRecurring :: bool
  recurringPattern :: "recurringPattern option"
  attendees :: "attendee list"

subsection \<open>checkForConflicts\<close>

text \<open>
  The interval test of the query's \<^verbatim>\<open>$or\<close> clause,
  \<^verbatim>\<open>{ startDateTime: { $lt: endDateTime }, endDateTime: { $gt: startDateTime } }\<close>,
  on two intervals given as (start, end) pairs: the first starts before the second
  ends and ends after the second starts.
\<close>

fun overlaps :: "date \<times> date \<Rightarrow> date \<times> date \<Rightarrow> bool" where
  "overlaps (s1, e1) (s2, e2) \<longleftrightarrow> s1 < e2 \<and> e1 > s2"

text \<open>
  The query object built by \<^verbatim>\<open>checkForConflicts\<close>: the venue, the candidate interval,
  and the \<^verbatim>\<open>_id: { $ne: excludeId }\<close> condition, which is only present when
  \<^verbatim>\<open>excludeId\<close> is truthy.
\<close>

record conflictQuery =
  q_venueId :: "objectId option"
  q_startDateTime :: date
  q_endDateTime :: date
  q_ne_id :: "objectId option"

definition matches :: "conflictQuery \<Rightarrow> rehearsal \<Rightarrow> bool" where
  "matches q r \<longleftrightarrow>
     venueId r = q_venueId q \<and>
     overlaps (startDateTime r, endDateTime r) (q_startDateTime q, q_endDateTime q) \<and>
     (case q_ne_id q of None \<Rightarrow> True | Some x \<Rightarrow> r_id r \<noteq> x)"

text \<open>\<^verbatim>\<open>this.find(query)\<close> over the collection, given as the list of its documents.\<close>

definition find_docs :: "rehearsal list \<Rightarrow> conflictQuery \<Rightarrow> rehearsal list" where
  "find_docs coll q = filter (matches q) coll"

definition checkForConflicts ::
  "rehearsal list \<Rightarrow> objectId option \<Rightarrow> date \<Rightarrow> date \<Rightarrow> objectId option \<Rightarrow> bool" where
  "checkForConflicts coll venue startDT endDT excludeId =
     (if \<not> truthy venue then False
      else
        let query = \<lparr> q_venueId = venue, q_startDateTime = startDT, q_endDateTime = endDT,
                      q_ne_id = (if truthy excludeId then excludeId else None) \<rparr>;
            conflicts = find_docs coll query
        in length conflicts > 0)"

subsection \<open>addAttendee\<close>

text \<open>
  \<^verbatim>\<open>Array.prototype.findIndex\<close> with a callback that may throw: the index of the first
  element the callback accepts, \<^verbatim>\<open>-1\<close> when there is none; an exception of the callback
  ends the search.
\<close>

fun findIndex :: "(attendee \<Rightarrow> error + bool) \<Rightarrow> attendee list \<Rightarrow> error + int" where
  "findIndex p [] = Inr (- 1)"
| "findIndex p (a # as) =
     (case p a of
        Inl e \<Rightarrow> Inl e
      | Inr b \<Rightarrow>
          if b then Inr 0
          else (case findIndex p as of
                  Inl e \<Rightarrow> Inl e
                | Inr i \<Rightarrow> Inr (if i < 0 then - 1 else i + 1)))"

text \<open>
  The cast of the \<^verbatim>\<open>userId\<close> path, which \<^verbatim>\<open>AttendeeSchema\<close> declares as an ObjectId,
  applied to the plain object that \<^verbatim>\<open>this.attendees.push\<close> receives. A string of 24
  hexadecimal digits becomes the ObjectId of those digits, whose \<^verbatim>\<open>toString()\<close> is
  in lower case; an ObjectId, given here as its \<^verbatim>\<open>toString()\<close>, is such a lower-case
  string and stays as it is. What the cast makes of any other string belongs to the
  library and is the parameter \<open>other\<close>, with \<open>None\<close> for a path that is left unset.
\<close>

definition is_hex_digit :: "char \<Rightarrow> bool" where
  "is_hex_digit c \<longleftrightarrow> c \<in> set ''0123456789abcdefABCDEF''"

definition lower_hex_digit :: "char \<Rightarrow> char" where
  "lower_hex_digit c = (case map_of (zip ''ABCDEF'' ''abcdef'') c of Some l \<Rightarrow> l | None \<Rightarrow> c)"

definition castObjectId :: "(string \<Rightarrow> objectId option) \<Rightarrow> string \<Rightarrow> objectId option" where
  "castObjectId other s =
     (if length s = 24 \<and> list_all is_hex_digit s then Some (map lower_hex_digit s)
      else other s)"

text \<open>
  \<^verbatim>\<open>addAttendee(userId, status = 'pending')\<close>. The status argument is an option, with
  \<open>None\<close> for an omitted argument; \<open>now\<close> is the value of \<^verbatim>\<open>new Date()\<close>. The search
  compares \<^verbatim>\<open>userId.toString()\<close> of the argument as it is given; the pushed entry holds
  the argument after the cast of its path. The result is the exception thrown, if
  any, and the rehearsal afterwards: an exception can only come from \<^verbatim>\<open>findIndex\<close>,
  before anything is assigned.
\<close>

definition addAttendee ::
  "(string \<Rightarrow> objectId option) \<Rightarrow> rehearsal \<Rightarrow> string option \<Rightarrow> string option \<Rightarrow> date
     \<Rightarrow> error option \<times> rehearsal" where
  "addAttendee other r uid status_arg now =
     (let st = (case status_arg of None \<Rightarrow> ''pending'' | Some s \<Rightarrow> s) in
      case findIndex (\<lambda>a. same_user (userId a) uid) (attendees r) of
        Inl e \<Rightarrow> (Some e, r)
      | Inr existingIndex \<Rightarrow>
          if existingIndex \<ge> 0 then
            (None, r\<lparr>attendees :=
               (attendees r)[nat existingIndex :=
                  (attendees r ! nat existingIndex)\<lparr>status := st, responseTime := Some now\<rparr>]\<rparr>)
          else
            (None, r\<lparr>attendees := attendees r @
               [\<lparr>userId = (case uid of None \<Rightarrow> None | Some s \<Rightarrow> castObjectId other s),
                 status = st,
                 responseTime = (if st \<noteq> ''pending'' then Some now else None)\<rparr>]\<rparr>))"

subsection \<open>Schema validation\<close>

text \<open>
  The validators that \<^verbatim>\<open>RecurringPatternSchema\<close> and \<^verbatim>\<open>RehearsalSchema\<close> declare, as the
  list of validation errors of a document, each with the path it belongs to. Numbers
  are integers here. \<^verbatim>\<open>startDateTime\<close> is present in every modelled document.
\<close>

datatype validationError =
    Required string
  | EnumError string
  | MinError string
  | MaxError string
  | MaxLength string
  | ValidatorError string

text \<open>The schema default \<^verbatim>\<open>interval: { default: 1 }\<close>, applied when a document is built.\<close>

definition apply_defaults :: "recurringPattern \<Rightarrow> recurringPattern" where
  "apply_defaults p = (case interval p of None \<Rightarrow> p\<lparr>interval := Some 1\<rparr> | Some _ \<Rightarrow> p)"

definition validate_recurringPattern :: "recurringPattern \<Rightarrow> validationError list" where
  "validate_recurringPattern p =
     (case frequency p of
        None \<Rightarrow> [Required ''recurringPattern.frequency'']
      | Some f \<Rightarrow>
          if f \<in> set [''weekly'', ''biweekly'', ''monthly''] then []
          else [EnumError ''recurringPattern.frequency''])
     @ (case dayOfWeek p of
          None \<Rightarrow>
            if frequency p = Some ''weekly'' \<or> frequency p = Some ''biweekly''
            then [Required ''recurringPattern.dayOfWeek''] else []
        | Some d \<Rightarrow>
            (if d < 0 then [MinError ''recurringPattern.dayOfWeek''] else [])
            @ (if d > 6 then [MaxError ''recurringPattern.dayOfWeek''] else []))
     @ (case interval p of
          None \<Rightarrow> []
        | Some i \<Rightarrow> if i < 1 then [MinError ''recurringPattern.interval''] else [])
     @ (case endDate p of
          None \<Rightarrow> [Required ''recurringPattern.endDate'']
        | Some _ \<Rightarrow> [])"

definition validate_rehearsal :: "rehearsal \<Rightarrow> validationError list" where
  "validate_rehearsal r =
     (case groupId r of None \<Rightarrow> [Required ''groupId''] | Some _ \<Rightarrow> [])
     @ (case title r of
          None \<Rightarrow> []
        | Some t \<Rightarrow> if length t > 100 then [MaxLength ''title''] else [])
     @ (case description r of
          None \<Rightarrow> []
        | Some d \<Rightarrow> if length d > 500 then [MaxLength ''description''] else [])
     @ (if endDateTime r > startDateTime r then [] else [ValidatorError ''endDateTime''])
     @ (case recurringPattern r of
          None \<Rightarrow> if isRecurring r then [Required ''recurringPattern''] else []
        | Some p \<Rightarrow> validate_recurringPattern (apply_defaults p))"

section \<open>Group model (the Group schema and its methods)\<close>

record member =
  m_userId :: "objectId option"
  role :: string
  instruments :: "string list"
  joinedAt :: date

record group =
  createdBy :: objectId
  members :: "member list"

text \<open>
  \<^verbatim>\<open>Array.prototype.some\<close> and \<^verbatim>\<open>filter\<close> with a callback that may throw: elements are
  visited in order, \<^verbatim>\<open>some\<close> stops at the first accepted element.
\<close>

fun some_member :: "(member \<Rightarrow> error + bool) \<Rightarrow> member list \<Rightarrow> error + bool" where
  "some_member p [] = Inr False"
| "some_member p (m # ms) =
     (case p m of Inl e \<Rightarrow> Inl e | Inr b \<Rightarrow> if b then Inr True else some_member p ms)"

fun filter_members :: "(member \<Rightarrow> error + bool) \<Rightarrow> member list \<Rightarrow> error + member list" where
  "filter_members p [] = Inr []"
| "filter_members p (m # ms) =
     (case p m of
        Inl e \<Rightarrow> Inl e
      | Inr b \<Rightarrow>
          (case filter_members p ms of
             Inl e \<Rightarrow> Inl e
           | Inr ms' \<Rightarrow> Inr (if b then m # ms' else ms')))"

definition isMember :: "group \<Rightarrow> objectId option \<Rightarrow> error + bool" where
  "isMember g uid = some_member (\<lambda>m. same_user (m_userId m) uid) (members g)"

definition isOwner :: "group \<Rightarrow> objectId option \<Rightarrow> error + bool" where
  "isOwner g uid =
     some_member
       (\<lambda>m. case same_user (m_userId m) uid of
               Inl e \<Rightarrow> Inl e
             | Inr b \<Rightarrow> Inr (b \<and> role m = ''owner''))
       (members g)"

text \<open>
  A method of the group returns what it threw or returned, together with the group
  afterwards.
\<close>

definition removeMember :: "group \<Rightarrow> objectId option \<Rightarrow> (error + bool) \<times> group" where
  "removeMember g uid =
     (case isMember g uid of
        Inl e \<Rightarrow> (Inl e, g)
      | Inr is_member \<Rightarrow>
          if \<not> is_member then (Inr False, g)
          else
            (case isOwner g uid of
               Inl e \<Rightarrow> (Inl e, g)
             | Inr is_owner \<Rightarrow>
                 if is_owner then (Inr False, g)
                 else
                   (case filter_members
                           (\<lambda>m. case same_user (m_userId m) uid of
                                   Inl e \<Rightarrow> Inl e
                                 | Inr b \<Rightarrow> Inr (\<not> b))
                           (members g) of
                      Inl e \<Rightarrow> (Inl e, g)
                    | Inr ms \<Rightarrow> (Inr True, g\<lparr>members := ms\<rparr>))))"

text \<open>
  The \<^verbatim>\<open>map\<close> callback of \<^verbatim>\<open>updateMemberRole\<close> assigns \<^verbatim>\<open>member.role\<close> on the member
  object itself, so the members visited before an exception keep their new role.
  The result is the exception, if any, and the members as they are afterwards.
\<close>

fun map_role :: "objectId option \<Rightarrow> string \<Rightarrow> member list \<Rightarrow> error option \<times> member list" where
  "map_role uid newRole [] = (None, [])"
| "map_role uid newRole (m # ms) =
     (case same_user (m_userId m) uid of
        Inl e \<Rightarrow> (Some e, m # ms)
      | Inr b \<Rightarrow>
          (let m' = (if b then m\<lparr>role := newRole\<rparr> else m);
               (err, ms') = map_role uid newRole ms
           in (err, m' # ms')))"

definition updateMemberRole :: "group \<Rightarrow> objectId option \<Rightarrow> string \<Rightarrow> (error + bool) \<times> group" where
  "updateMemberRole g uid newRole =
     (case isMember g uid of
        Inl e \<Rightarrow> (Inl e, g)
      | Inr is_member \<Rightarrow>
          if \<not> is_member then (Inr False, g)
          else
            (case isOwner g uid of
               Inl e \<Rightarrow> (Inl e, g)
             | Inr is_owner \<Rightarrow>
                 if is_owner \<and> newRole \<noteq> ''owner'' then (Inr False, g)
                 else
                   (case map_role uid newRole (members g) of
                      (Some e, ms) \<Rightarrow> (Inl e, g\<lparr>members := ms\<rparr>)
                    | (None, ms) \<Rightarrow> (Inr True, g\<lparr>members := ms\<rparr>))))"

section \<open>Availability engine\<close>

text \<open>
  Modelled from the spec: the repository's files hold no availability aggregation, only
  the schemas of the availability slots; \<^verbatim>\<open>TimeInterval\<close>, \<^verbatim>\<open>intersectAvailability\<close> and
  \<^verbatim>\<open>rankCandidates\<close> follow sections 3, 4.3 and 7 of the specification. A
  \<^verbatim>\<open>TimeInterval\<close> is the pair of its start and end timestamps, in milliseconds.
\<close>

type_synonym timeInterval = "int \<times> int"

text \<open>
  Modelled from the spec: the error kind \<^verbatim>\<open>InvalidInterval\<close> of section 7, for an
  interval with \<^verbatim>\<open>end <= start\<close> supplied to an operation, which is rejected before any
  computation.
\<close>

datatype sched_error = InvalidInterval

text \<open>Modelled from the spec: the invariant \<^verbatim>\<open>end > start\<close> of a \<^verbatim>\<open>TimeInterval\<close>.\<close>

definition valid_interval :: "timeInterval \<Rightarrow> bool" where
  "valid_interval i \<longleftrightarrow> snd i > fst i"

text \<open>Modelled from the spec: the length of an interval, \<^verbatim>\<open>end - start\<close>.\<close>

definition duration :: "timeInterval \<Rightarrow> int" where
  "duration i = snd i - fst i"

text \<open>Modelled from the spec: a number of minutes, in milliseconds.\<close>

definition minutes :: "int \<Rightarrow> int" where
  "minutes m = m * 60000"

text \<open>
  Modelled from the spec: the boundaries of the sweep of \<^verbatim>\<open>intersectAvailability\<close>. Every
  interval of every member gives a start boundary (\<open>True\<close>) and an end boundary
  (\<open>False\<close>); sorted as pairs, an end comes before a start at the same instant, so
  that intervals that only touch have no common part.
\<close>

definition boundaries :: "timeInterval list list \<Rightarrow> (int \<times> bool) list" where
  "boundaries free = concat (map (\<lambda>i. [(fst i, True), (snd i, False)]) (concat free))"

text \<open>
  Modelled from the spec: the sweep over the sorted boundaries. \<open>n\<close> is the number of
  members, \<open>active\<close> the number of members free at the current boundary, \<open>since\<close> the
  instant from which all \<open>n\<close> members have been free, if they are. The per-member
  sequences are those \<^verbatim>\<open>freeIntervals\<close> returns, already merged.
\<close>

fun sweep :: "nat \<Rightarrow> nat \<Rightarrow> int option \<Rightarrow> (int \<times> bool) list \<Rightarrow> timeInterval list" where
  "sweep n active since [] = []"
| "sweep n active since ((t, is_start) # evs) =
     (if is_start then
        sweep n (active + 1) (if active + 1 = n then Some t else None) evs
      else
        (case since of
           Some s \<Rightarrow> (s, t) # sweep n (active - 1) None evs
         | None \<Rightarrow> sweep n (active - 1) None evs))"

text \<open>
  Modelled from the spec: \<^verbatim>\<open>intersectAvailability(members, minDurationMinutes)\<close>, the
  intersection across all members' free intervals by a sweep over the sorted
  boundaries, without the resulting intervals shorter than \<^verbatim>\<open>minDurationMinutes\<close>.
\<close>

definition intersectAvailability ::
  "timeInterval list list \<Rightarrow> int \<Rightarrow> sched_error + timeInterval list" where
  "intersectAvailability free minDurationMinutes =
     (if \<not> list_all (list_all valid_interval) free then Inl InvalidInterval
      else
        let common = sweep (length free) 0 None (sort (boundaries free))
        in Inr (filter (\<lambda>i. duration i \<ge> minutes minDurationMinutes) common))"

text \<open>
  Modelled from the spec: the order of \<^verbatim>\<open>rankCandidates\<close>, interval length descending,
  then start time ascending, as a key compared lexicographically.
\<close>

definition rank_key :: "timeInterval \<Rightarrow> int \<times> int" where
  "rank_key c = (- duration c, fst c)"

text \<open>
  Modelled from the spec: \<^verbatim>\<open>rankCandidates(commonIntervals, preferredDurationMinutes,
  limit)\<close>. A window of the preferred length is placed at the start of each common
  interval that can hold it; the windows are ordered by the rank of their interval
  and the first \<^verbatim>\<open>limit\<close> are returned.
\<close>

definition rankCandidates ::
  "timeInterval list \<Rightarrow> int \<Rightarrow> int \<Rightarrow> sched_error + timeInterval list" where
  "rankCandidates commonIntervals preferredDurationMinutes limit =
     (if \<not> list_all valid_interval commonIntervals then Inl InvalidInterval
      else
        let need = minutes preferredDurationMinutes;
            fitting = filter (\<lambda>c. need \<le> duration c) commonIntervals;
            ranked = sort_key rank_key fitting
        in Inr (map (\<lambda>c. (fst c, fst c + need)) (take (nat limit) ranked)))"

section \<open>Example documents\<close>

definition hour :: int where
  "hour = 3600000"

definition booking :: "objectId \<Rightarrow> objectId option \<Rightarrow> date \<Rightarrow> date \<Rightarrow> rehearsal" where
  "booking i v s e = \<lparr> r_id = i, groupId = Some ''g1'', venueId = v, title = None,
     description = None, startDateTime = s, endDateTime = e, isRecurring = False,
     recurringPattern = None, attendees = [] \<rparr>"

definition gig :: rehearsal where
  "gig = (booking ''r1'' (Some ''v1'') 1000 2000)\<lparr>attendees :=
     [\<lparr>userId = Some ''eeeeeeeeeeeeeeeeeeeeeee1'', status = ''pending'', responseTime = None\<rparr>,
      \<lparr>userId = Some ''ffffffffffffffffffffffff'', status = ''confirmed'',
        responseTime = Some 7\<rparr>]\<rparr>"

definition weekly_pattern :: "int option \<Rightarrow> int option \<Rightarrow> date option \<Rightarrow> recurringPattern" where
  "weekly_pattern d i e = \<lparr> frequency = Some ''weekly'', dayOfWeek = d, interval = i, endDate = e \<rparr>"

definition recurring :: "date \<Rightarrow> date \<Rightarrow> recurringPattern \<Rightarrow> rehearsal" where
  "recurring s e p = (booking ''r1'' None s e)\<lparr>isRecurring := True, recurringPattern := Some p\<rparr>"

definition band :: group where
  "band = \<lparr> createdBy = ''u1'',
            members =
              [\<lparr> m_userId = Some ''u1'', role = ''owner'', instruments = [], joinedAt = 0 \<rparr>,
               \<lparr> m_userId = Some ''u2'', role = ''member'', instruments = [''bass''],
                 joinedAt = 5 \<rparr>] \<rparr>"

section \<open>Conflict detection\<close>

lemma checkForConflicts_exists:
  "truthy venue \<Longrightarrow>
   checkForConflicts coll venue s e excludeId \<longleftrightarrow>
     (\<exists>r \<in> set coll. matches \<lparr> q_venueId = venue, q_startDateTime = s, q_endDateTime = e,
                      q_ne_id = (if truthy excludeId then excludeId else None) \<rparr> r)"
  by (simp add: checkForConflicts_def find_docs_def Let_def filter_empty_conv)

text \<open>
  Claim C1. For a venue identifier that is present, \<^verbatim>\<open>checkForConflicts\<close> returns true
  exactly when some rehearsal of the collection at that venue, other than the one
  named by a (truthy) \<^verbatim>\<open>excludeId\<close>, overlaps the candidate half-openly: the candidate
  starts before it ends and ends after it starts. A rehearsal that only touches the
  candidate at an endpoint never causes a true result: with or without it in the
  collection, the answer is the same.
\<close>

theorem checkForConflicts_iff_overlap:
  assumes "truthy venue"
  shows "(checkForConflicts coll venue s e excludeId \<longleftrightarrow>
           (\<exists>r \<in> set coll. venueId r = venue \<and>
              \<not> (truthy excludeId \<and> excludeId = Some (r_id r)) \<and>
              s < endDateTime r \<and> e > startDateTime r))
       \<and> ((s = endDateTime t \<or> e = startDateTime t) \<longrightarrow>
            checkForConflicts (xs @ t # ys) venue s e excludeId
              = checkForConflicts (xs @ ys) venue s e excludeId)"
proof
  show "checkForConflicts coll venue s e excludeId \<longleftrightarrow>
           (\<exists>r \<in> set coll. venueId r = venue \<and>
              \<not> (truthy excludeId \<and> excludeId = Some (r_id r)) \<and>
              s < endDateTime r \<and> e > startDateTime r)"
    unfolding checkForConflicts_exists [OF assms]
    by (cases excludeId) (auto simp: matches_def truthy_def)
next
  show "(s = endDateTime t \<or> e = startDateTime t) \<longrightarrow>
            checkForConflicts (xs @ t # ys) venue s e excludeId
              = checkForConflicts (xs @ ys) venue s e excludeId"
    unfolding checkForConflicts_exists [OF assms]
    by (auto simp: matches_def)
qed

theorem checkForConflicts_iff_overlap_witness:
  "truthy (Some ''v1'')
   \<and> checkForConflicts [booking ''a'' (Some ''v1'') 100 200, booking ''b'' (Some ''v2'') 0 1000]
        (Some ''v1'') 150 300 None
   \<and> \<not> checkForConflicts [booking ''a'' (Some ''v1'') 100 200, booking ''b'' (Some ''v2'') 0 1000]
        (Some ''v1'') 150 300 (Some ''a'')
   \<and> 200 = endDateTime (booking ''a'' (Some ''v1'') 100 200)
   \<and> checkForConflicts ([] @ booking ''a'' (Some ''v1'') 100 200 # [booking ''c'' (Some ''v1'') 250 400])
        (Some ''v1'') 200 300 None
      = checkForConflicts ([] @ [booking ''c'' (Some ''v1'') 250 400]) (Some ''v1'') 200 300 None"
proof -
  have t: "truthy (Some ''v1'')" by (simp add: truthy_def)
  let ?coll = "[booking ''a'' (Some ''v1'') 100 200, booking ''b'' (Some ''v2'') 0 1000]"
  from checkForConflicts_iff_overlap [OF t, of ?coll 150 300 None]
  have a: "checkForConflicts ?coll (Some ''v1'') 150 300 None"
    by (simp add: booking_def truthy_def)
  from checkForConflicts_iff_overlap [OF t, of ?coll 150 300 "Some ''a''"]
  have b: "\<not> checkForConflicts ?coll (Some ''v1'') 150 300 (Some ''a'')"
    by (simp add: booking_def truthy_def)
  have c: "200 = endDateTime (booking ''a'' (Some ''v1'') 100 200)"
    by (simp add: booking_def)
  from checkForConflicts_iff_overlap
         [OF t, of _ 200 300 None "booking ''a'' (Some ''v1'') 100 200" "[]"
            "[booking ''c'' (Some ''v1'') 250 400]"] c
  have d: "checkForConflicts ([] @ booking ''a'' (Some ''v1'') 100 200 # [booking ''c'' (Some ''v1'') 250 400])
        (Some ''v1'') 200 300 None
      = checkForConflicts ([] @ [booking ''c'' (Some ''v1'') 250 400]) (Some ''v1'') 200 300 None"
    by blast
  from t a b c d show ?thesis by blast
qed

text \<open>
  Claim C2. When the venue identifier is absent, \<^verbatim>\<open>checkForConflicts\<close> returns false for
  every candidate interval, every \<^verbatim>\<open>excludeId\<close> and every content of the collection.
\<close>

theorem checkForConflicts_no_venue:
  "checkForConflicts coll None s e excludeId = False"
  by (simp add: checkForConflicts_def truthy_def)

theorem checkForConflicts_no_venue_witness:
  "checkForConflicts [booking ''a'' (Some ''v1'') 100 200] None 150 300 None = False"
  by (rule checkForConflicts_no_venue)

text \<open>
  Claim C3. The interval test of the conflict query is symmetric in its two intervals.
\<close>

theorem overlaps_symmetric: "overlaps A B = overlaps B A"
  by (cases A; cases B) auto

theorem overlaps_symmetric_witness: "overlaps (100, 200) (150, 300) = overlaps (150, 300) (100, 200)"
  by (rule overlaps_symmetric)

text \<open>
  At the boundary: an interval that starts where another ends does not overlap it, one
  that starts just before that end does.
\<close>

lemma overlaps_at_boundary:
  "\<not> overlaps (s, e) (e, e + 1)"
  "s < e \<Longrightarrow> overlaps (s, e) (e - 1, e + 5)"
  by simp_all

section \<open>Group membership\<close>

lemma some_member_owner_imp_member:
  "some_member (\<lambda>m. case same_user (m_userId m) uid of
               Inl e \<Rightarrow> Inl e
             | Inr b \<Rightarrow> Inr (b \<and> role m = ''owner'')) ms = Inr True
   \<Longrightarrow> some_member (\<lambda>m. same_user (m_userId m) uid) ms = Inr True"
  by (induction ms) (auto split: sum.splits if_splits)

lemma isOwner_imp_isMember: "isOwner g uid = Inr True \<Longrightarrow> isMember g uid = Inr True"
  unfolding isOwner_def isMember_def by (rule some_member_owner_imp_member)

text \<open>
  Claim C4. For a user who holds the owner role (\<^verbatim>\<open>isOwner\<close> returns true),
  \<^verbatim>\<open>removeMember\<close> returns false and leaves the group as it was, and
  \<^verbatim>\<open>updateMemberRole\<close> with a new role other than \<^verbatim>\<open>'owner'\<close> returns false and leaves
  the group as it was; neither throws.
\<close>

theorem owner_guard:
  assumes "isOwner g uid = Inr True"
  shows "removeMember g uid = (Inr False, g)
       \<and> (newRole \<noteq> ''owner'' \<longrightarrow> updateMemberRole g uid newRole = (Inr False, g))"
  using assms isOwner_imp_isMember [OF assms]
  by (simp add: removeMember_def updateMemberRole_def)

theorem owner_guard_witness:
  "isOwner band (Some ''u1'') = Inr True
   \<and> removeMember band (Some ''u1'') = (Inr False, band)
   \<and> ''admin'' \<noteq> ''owner''
   \<and> updateMemberRole band (Some ''u1'') ''admin'' = (Inr False, band)"
proof -
  have ow: "isOwner band (Some ''u1'') = Inr True"
    by (simp add: isOwner_def band_def same_user_def)
  from owner_guard [OF ow, of "''admin''"] ow show ?thesis by simp
qed

text \<open>
  Beyond the guarded calls: whoever the call names, an entry with the owner role is
  still an entry of the group afterwards, with its role.
\<close>

lemma owner_test_False:
  "some_member (\<lambda>m. case same_user (m_userId m) uid of
               Inl e \<Rightarrow> Inl e
             | Inr b \<Rightarrow> Inr (b \<and> role m = ''owner'')) ms = Inr False
   \<Longrightarrow> m \<in> set ms \<Longrightarrow> role m = ''owner'' \<Longrightarrow> same_user (m_userId m) uid = Inr False"
  by (induction ms) (auto split: sum.splits if_splits)

lemma filter_members_keeps:
  "filter_members (\<lambda>m. case same_user (m_userId m) uid of Inl e \<Rightarrow> Inl e | Inr b \<Rightarrow> Inr (\<not> b)) ms = Inr ms'
   \<Longrightarrow> m \<in> set ms \<Longrightarrow> same_user (m_userId m) uid = Inr False \<Longrightarrow> m \<in> set ms'"
  by (induction ms arbitrary: ms') (auto split: sum.splits if_splits)

lemma removeMember_keeps_owners:
  assumes "m \<in> set (members g)" "role m = ''owner''"
  shows "m \<in> set (members (snd (removeMember g uid)))"
  using assms
  by (auto simp: removeMember_def isOwner_def split: sum.splits
           dest: filter_members_keeps owner_test_False)

lemma map_role_keeps:
  "map_role uid newRole ms = (err, ms') \<Longrightarrow> m \<in> set ms \<Longrightarrow>
   same_user (m_userId m) uid = Inr False \<or> m\<lparr>role := newRole\<rparr> = m \<Longrightarrow> m \<in> set ms'"
proof (induction ms arbitrary: ms' err)
  case Nil
  then show ?case by simp
next
  case (Cons a ms)
  show ?case
  proof (cases "same_user (m_userId a) uid")
    case (Inl e)
    with Cons.prems show ?thesis by simp
  next
    case (Inr b)
    obtain err2 ms2 where rec: "map_role uid newRole ms = (err2, ms2)"
      by (cases "map_role uid newRole ms")
    with Inr Cons.prems(1)
    have ms': "ms' = (if b then a\<lparr>role := newRole\<rparr> else a) # ms2" by auto
    show ?thesis
    proof (cases "m = a")
      case True
      with Cons.prems(3) Inr ms' show ?thesis by auto
    next
      case False
      with Cons.prems(2) have "m \<in> set ms" by simp
      from Cons.IH [OF rec this Cons.prems(3)] ms' show ?thesis by simp
    qed
  qed
qed

lemma updateMemberRole_keeps_owners:
  assumes "m \<in> set (members g)" "role m = ''owner''"
  shows "m \<in> set (members (snd (updateMemberRole g uid newRole)))"
proof (cases "isMember g uid = Inr True \<and> (\<exists>ow. isOwner g uid = Inr ow \<and> \<not> (ow \<and> newRole \<noteq> ''owner''))")
  case False
  with assms(1) show ?thesis
    by (auto simp: updateMemberRole_def split: sum.splits)
next
  case True
  then obtain ow where o: "isMember g uid = Inr True" "isOwner g uid = Inr ow" "\<not> (ow \<and> newRole \<noteq> ''owner'')"
    by blast
  obtain err ms where mr: "map_role uid newRole (members g) = (err, ms)"
    by (cases "map_role uid newRole (members g)")
  have "same_user (m_userId m) uid = Inr False \<or> m\<lparr>role := newRole\<rparr> = m"
  proof (cases ow)
    case True
    with o(3) have "newRole = ''owner''" by simp
    with assms(2) have "m\<lparr>role := newRole\<rparr> = m" by simp
    then show ?thesis ..
  next
    case False
    with o(2) have "isOwner g uid = Inr False" by simp
    from owner_test_False [OF this [unfolded isOwner_def] assms] show ?thesis ..
  qed
  from map_role_keeps [OF mr assms(1) this] have "m \<in> set ms" .
  with o mr show ?thesis
    by (cases err) (auto simp: updateMemberRole_def)
qed

section \<open>Recurring patterns\<close>

text \<open>
  Claim C6, as the schema has it. A rehearsal whose recurring pattern has an interval
  below 1, or no \<^verbatim>\<open>dayOfWeek\<close> while its frequency is weekly or biweekly, or no
  \<^verbatim>\<open>endDate\<close>, fails validation with the error of that path. The schema never
  compares \<^verbatim>\<open>endDate\<close> with the start of the rehearsal.
\<close>

theorem invalid_pattern_rejected:
  assumes "recurringPattern r = Some p"
  shows "(\<forall>i. interval p = Some i \<and> i \<le> 0 \<longrightarrow>
            MinError ''recurringPattern.interval'' \<in> set (validate_rehearsal r))
       \<and> ((frequency p = Some ''weekly'' \<or> frequency p = Some ''biweekly'') \<and> dayOfWeek p = None \<longrightarrow>
            Required ''recurringPattern.dayOfWeek'' \<in> set (validate_rehearsal r))
       \<and> (endDate p = None \<longrightarrow>
            Required ''recurringPattern.endDate'' \<in> set (validate_rehearsal r))"
  using assms
  by (auto simp: validate_rehearsal_def validate_recurringPattern_def apply_defaults_def
           split: option.splits)

theorem invalid_pattern_rejected_witness:
  "recurringPattern (recurring 1000 2000 (weekly_pattern None (Some 0) None))
     = Some (weekly_pattern None (Some 0) None)
   \<and> MinError ''recurringPattern.interval''
       \<in> set (validate_rehearsal (recurring 1000 2000 (weekly_pattern None (Some 0) None)))
   \<and> Required ''recurringPattern.dayOfWeek''
       \<in> set (validate_rehearsal (recurring 1000 2000 (weekly_pattern None (Some 0) None)))
   \<and> Required ''recurringPattern.endDate''
       \<in> set (validate_rehearsal (recurring 1000 2000 (weekly_pattern None (Some 0) None)))"
proof -
  have p: "recurringPattern (recurring 1000 2000 (weekly_pattern None (Some 0) None))
     = Some (weekly_pattern None (Some 0) None)"
    by (simp add: recurring_def)
  from invalid_pattern_rejected [OF p] p show ?thesis
    by (simp add: weekly_pattern_def)
qed

text \<open>
  Claim C6, as stated, fails: a weekly pattern on Tuesdays with interval 1 whose
  \<^verbatim>\<open>endDate\<close> lies before the start of its rehearsal passes validation.
\<close>

theorem endDate_before_start_accepted:
  "recurringPattern (recurring 1000 2000 (weekly_pattern (Some 2) (Some 1) (Some 500)))
     = Some (weekly_pattern (Some 2) (Some 1) (Some 500))
   \<and> endDate (weekly_pattern (Some 2) (Some 1) (Some 500)) = Some 500
   \<and> 500 < startDateTime (recurring 1000 2000 (weekly_pattern (Some 2) (Some 1) (Some 500)))
   \<and> validate_rehearsal (recurring 1000 2000 (weekly_pattern (Some 2) (Some 1) (Some 500))) = []"
  by (simp add: recurring_def booking_def weekly_pattern_def validate_rehearsal_def
        validate_recurringPattern_def apply_defaults_def)

section \<open>Attendance\<close>

lemma same_user_Inr: "same_user a b = Inr c \<longleftrightarrow> (\<exists>x y. a = Some x \<and> b = Some y \<and> c = (x = y))"
  by (auto simp: same_user_def split: option.splits)

lemma same_user_total: "a \<noteq> None \<Longrightarrow> b \<noteq> None \<Longrightarrow> \<exists>c. same_user a b = Inr c"
  by (auto simp: same_user_def split: option.splits)

lemma findIndex_not_found:
  "findIndex p xs = Inr i \<Longrightarrow> i < 0 \<Longrightarrow> i = - 1 \<and> (\<forall>a \<in> set xs. p a = Inr False)"
  by (induction xs arbitrary: i) (auto split: sum.splits if_splits)

lemma findIndex_found:
  "findIndex p xs = Inr i \<Longrightarrow> 0 \<le> i \<Longrightarrow>
     nat i < length xs \<and> p (xs ! nat i) = Inr True"
proof (induction xs arbitrary: i)
  case Nil
  then show ?case by simp
next
  case (Cons a xs)
  show ?case
  proof (cases "p a = Inr True")
    case True
    with Cons.prems show ?thesis by simp
  next
    case False
    with Cons.prems obtain j where j: "findIndex p xs = Inr j" "0 \<le> j" "i = j + 1"
      by (auto split: sum.splits if_splits)
    from Cons.IH [OF j(1) j(2)] j(2,3) show ?thesis
      by (simp add: nat_add_distrib)
  qed
qed

lemma findIndex_total:
  "\<forall>a \<in> set xs. \<exists>b. p a = Inr b \<Longrightarrow> \<exists>i. findIndex p xs = Inr i"
  by (induction xs) (auto split: sum.splits)

lemma distinct_only_index:
  "distinct (map f xs) \<Longrightarrow> i < length xs \<Longrightarrow> j < length xs \<Longrightarrow> f (xs ! j) = f (xs ! i) \<Longrightarrow> j = i"
  by (metis distinct_conv_nth length_map nth_map)

text \<open>
  For an argument that the cast leaves as it is (an ObjectId, or the lower-case string
  of one), \<^verbatim>\<open>addAttendee\<close> keeps at most one entry per user: when it returns and the
  user is already an attendee, the list keeps its length and only that user's entry
  changes, to the given status and the current time as response time; when the user
  is not an attendee, exactly one entry is appended. When it throws, the rehearsal is
  as it was; it does not throw when the given user and the users of all entries are
  present.
\<close>

lemma addAttendee_unique_when_canonical:
  assumes "distinct (map userId (attendees r))"
      and canon: "\<forall>s. uid = Some s \<longrightarrow> castObjectId other s = Some s"
  shows "case addAttendee other r uid status_arg now of (err, r') \<Rightarrow>
     distinct (map userId (attendees r')) \<and>
     (err = None \<longrightarrow>
        (let st = (case status_arg of None \<Rightarrow> ''pending'' | Some s \<Rightarrow> s) in
         if uid \<in> set (map userId (attendees r))
         then length (attendees r') = length (attendees r) \<and>
              (\<forall>i < length (attendees r).
                 attendees r' ! i =
                   (if userId (attendees r ! i) = uid
                    then (attendees r ! i)\<lparr>status := st, responseTime := Some now\<rparr>
                    else attendees r ! i))
         else attendees r' = attendees r @
                [\<lparr>userId = uid, status = st,
                  responseTime = (if st \<noteq> ''pending'' then Some now else None)\<rparr>])) \<and>
     (err \<noteq> None \<longrightarrow> r' = r) \<and>
     (uid \<noteq> None \<and> (\<forall>a \<in> set (attendees r). userId a \<noteq> None) \<longrightarrow> err = None)"
proof (cases "findIndex (\<lambda>a. same_user (userId a) uid) (attendees r)")
  case (Inl e)
  have "\<not> (uid \<noteq> None \<and> (\<forall>a \<in> set (attendees r). userId a \<noteq> None))"
  proof
    assume h: "uid \<noteq> None \<and> (\<forall>a \<in> set (attendees r). userId a \<noteq> None)"
    then have "\<forall>a \<in> set (attendees r). \<exists>b. same_user (userId a) uid = Inr b"
      by (simp add: same_user_total)
    from findIndex_total [OF this] Inl show False by simp
  qed
  with Inl assms(1) show ?thesis by (simp add: addAttendee_def)
next
  case (Inr i)
  let ?st = "case status_arg of None \<Rightarrow> ''pending'' | Some s \<Rightarrow> s"
  show ?thesis
  proof (cases "0 \<le> i")
    case True
    let ?k = "nat i"
    from findIndex_found [OF Inr True]
    have k: "?k < length (attendees r)"
      and hit: "same_user (userId (attendees r ! ?k)) uid = Inr True"
      by simp_all
    from hit have eq: "userId (attendees r ! ?k) = uid"
      by (auto simp: same_user_Inr)
    let ?new = "(attendees r)[?k := (attendees r ! ?k)\<lparr>status := ?st, responseTime := Some now\<rparr>]"
    have res: "addAttendee other r uid status_arg now = (None, r\<lparr>attendees := ?new\<rparr>)"
      using Inr True by (simp add: addAttendee_def)
    have ids: "map userId ?new = map userId (attendees r)"
      by (simp add: map_update list_update_same_conv k)
    have mem: "uid \<in> set (map userId (attendees r))"
      using k eq by (metis length_map nth_map nth_mem)
    have only: "\<And>j. j < length (attendees r) \<Longrightarrow> userId (attendees r ! j) = uid \<Longrightarrow> j = ?k"
      using distinct_only_index [OF assms(1) k] eq by simp
    have pointwise: "\<forall>j < length (attendees r).
        ?new ! j = (if userId (attendees r ! j) = uid
                    then (attendees r ! j)\<lparr>status := ?st, responseTime := Some now\<rparr>
                    else attendees r ! j)"
    proof (intro allI impI)
      fix j assume j: "j < length (attendees r)"
      show "?new ! j = (if userId (attendees r ! j) = uid
                    then (attendees r ! j)\<lparr>status := ?st, responseTime := Some now\<rparr>
                    else attendees r ! j)"
      proof (cases "j = ?k")
        case True
        with k eq show ?thesis by simp
      next
        case False
        with only [OF j] have "userId (attendees r ! j) \<noteq> uid" by blast
        with False show ?thesis by simp
      qed
    qed
    show ?thesis
      unfolding res using assms(1) ids mem pointwise by (simp add: Let_def)
  next
    case False
    then have neg: "i < 0" by simp
    from findIndex_not_found [OF Inr neg]
    have none: "\<forall>a \<in> set (attendees r). same_user (userId a) uid = Inr False" by simp
    then have notin: "uid \<notin> set (map userId (attendees r))"
      by (auto simp: same_user_Inr)
    from canon have kept: "(case uid of None \<Rightarrow> None | Some s \<Rightarrow> castObjectId other s) = uid"
      by (cases uid) simp_all
    have res: "addAttendee other r uid status_arg now =
       (None, r\<lparr>attendees := attendees r @
               [\<lparr>userId = uid, status = ?st,
                 responseTime = (if ?st \<noteq> ''pending'' then Some now else None)\<rparr>]\<rparr>)"
      using Inr False kept by (simp add: addAttendee_def Let_def)
    show ?thesis
      unfolding res using assms(1) notin by (simp add: Let_def)
  qed
qed

text \<open>
  Claim C10. The claim asks that \<^verbatim>\<open>addAttendee\<close> never gives the list two entries with
  the same user. The code misses a case: \<^verbatim>\<open>gig\<close> has one entry per user, and the call
  names its first attendee by the upper-case spelling of the same ObjectId. The search
  compares the strings as given and finds nobody, the push casts the argument to the
  ObjectId that the first entry already holds, and the list ends with two entries for
  that user.
\<close>

theorem addAttendee_duplicates_user:
  "distinct (map userId (attendees gig))
   \<and> addAttendee (\<lambda>s. None) gig (Some ''EEEEEEEEEEEEEEEEEEEEEEE1'') (Some ''confirmed'') 99 =
       (None, gig\<lparr>attendees := attendees gig @
          [\<lparr>userId = Some ''eeeeeeeeeeeeeeeeeeeeeee1'', status = ''confirmed'',
            responseTime = Some 99\<rparr>]\<rparr>)
   \<and> \<not> distinct (map userId (attendees (snd
         (addAttendee (\<lambda>s. None) gig (Some ''EEEEEEEEEEEEEEEEEEEEEEE1'') (Some ''confirmed'') 99))))"
proof -
  have d: "distinct (map userId (attendees gig))"
    by (simp add: gig_def)
  have c: "castObjectId (\<lambda>s. None) ''EEEEEEEEEEEEEEEEEEEEEEE1'' = Some ''eeeeeeeeeeeeeeeeeeeeeee1''"
    by (simp add: castObjectId_def is_hex_digit_def lower_hex_digit_def)
  have r: "addAttendee (\<lambda>s. None) gig (Some ''EEEEEEEEEEEEEEEEEEEEEEE1'') (Some ''confirmed'') 99 =
       (None, gig\<lparr>attendees := attendees gig @
          [\<lparr>userId = Some ''eeeeeeeeeeeeeeeeeeeeeee1'', status = ''confirmed'',
            responseTime = Some 99\<rparr>]\<rparr>)"
    by (simp add: addAttendee_def gig_def same_user_def c Let_def)
  have n: "\<not> distinct (map userId (attendees (snd
         (addAttendee (\<lambda>s. None) gig (Some ''EEEEEEEEEEEEEEEEEEEEEEE1'') (Some ''confirmed'') 99))))"
    unfolding r by (simp add: gig_def)
  from d r n show ?thesis by blast
qed

section \<open>Availability intersection and ranking\<close>

lemma sweep_starts:
  "i \<in> set (sweep n active since evs) \<Longrightarrow> since = Some (fst i) \<or> fst i \<in> fst ` set evs"
proof (induction evs arbitrary: active since)
  case Nil
  then show ?case by simp
next
  case (Cons ev evs)
  obtain t is_start where ev: "ev = (t, is_start)" by (cases ev)
  show ?case
  proof (cases is_start)
    case True
    with Cons.prems ev
    have "i \<in> set (sweep n (active + 1) (if active + 1 = n then Some t else None) evs)" by simp
    from Cons.IH [OF this] ev show ?thesis by (auto split: if_splits)
  next
    case False
    show ?thesis
    proof (cases since)
      case None
      with False Cons.prems ev have "i \<in> set (sweep n (active - 1) None evs)" by simp
      from Cons.IH [OF this] show ?thesis by auto
    next
      case (Some s)
      with False Cons.prems ev have "i = (s, t) \<or> i \<in> set (sweep n (active - 1) None evs)" by simp
      then show ?thesis
      proof
        assume "i = (s, t)"
        with Some show ?thesis by simp
      next
        assume "i \<in> set (sweep n (active - 1) None evs)"
        from Cons.IH [OF this] show ?thesis by auto
      qed
    qed
  qed
qed

lemma sweep_sorted:
  "sorted (map fst evs) \<Longrightarrow> (\<forall>s. since = Some s \<longrightarrow> (\<forall>e \<in> set evs. s \<le> fst e)) \<Longrightarrow>
   sorted (map fst (sweep n active since evs))"
proof (induction evs arbitrary: active since)
  case Nil
  then show ?case by simp
next
  case (Cons ev evs)
  obtain t is_start where ev: "ev = (t, is_start)" by (cases ev)
  from Cons.prems(1) ev have srt: "sorted (map fst evs)" and lo: "\<forall>e \<in> set evs. t \<le> fst e"
    by auto
  show ?case
  proof (cases is_start)
    case True
    have "sorted (map fst (sweep n (active + 1) (if active + 1 = n then Some t else None) evs))"
      by (rule Cons.IH [OF srt]) (use lo in auto)
    with True ev show ?thesis by simp
  next
    case False
    have rest: "sorted (map fst (sweep n (active - 1) None evs))"
      by (rule Cons.IH [OF srt]) simp
    show ?thesis
    proof (cases since)
      case None
      with False ev rest show ?thesis by simp
    next
      case (Some s)
      from Some Cons.prems(2) ev have "s \<le> t" by simp
      have "\<forall>i \<in> set (sweep n (active - 1) None evs). s \<le> fst i"
      proof
        fix i assume "i \<in> set (sweep n (active - 1) None evs)"
        from sweep_starts [OF this] have "fst i \<in> fst ` set evs" by simp
        with lo \<open>s \<le> t\<close> show "s \<le> fst i" by auto
      qed
      with Some False ev rest show ?thesis by simp
    qed
  qed
qed

lemma sorted_fst_of_sorted: "sorted (xs :: (int \<times> bool) list) \<Longrightarrow> sorted (map fst xs)"
  by (induction xs) (auto simp: less_eq_prod_def)

lemma common_sorted: "sorted (map fst (sweep n 0 None (sort (boundaries free))))"
  by (rule sweep_sorted) (simp_all add: sorted_fst_of_sorted)

text \<open>
  Claim C8. Two members, one free from 18:00 to 21:00 and one from 19:00 to 22:00 of
  the day that starts at \<open>d\<close> (any Monday), with a minimum of 60 minutes, have exactly
  the interval from 19:00 to 21:00 of that day in common. Whatever the members' intervals, a returned sequence
  is ordered by start time ascending, and valid intervals always give a sequence,
  never an error; it is empty when there is no common slot, as for members free from
  18:00 to 19:00 and from 19:00 to 22:00.
\<close>

theorem intersectAvailability_spec:
  "intersectAvailability [[(d + 18 * hour, d + 21 * hour)], [(d + 19 * hour, d + 22 * hour)]] 60
     = Inr [(d + 19 * hour, d + 21 * hour)]
   \<and> (list_all (list_all valid_interval) free \<longrightarrow>
        (\<exists>xs. intersectAvailability free m = Inr xs \<and> sorted (map fst xs)))
   \<and> (\<forall>xs. intersectAvailability free m = Inr xs \<longrightarrow> sorted (map fst xs))
   \<and> intersectAvailability [[(d + 18 * hour, d + 19 * hour)], [(d + 19 * hour, d + 22 * hour)]] 60
     = Inr []"
proof (intro conjI)
  show "intersectAvailability [[(d + 18 * hour, d + 21 * hour)], [(d + 19 * hour, d + 22 * hour)]] 60
     = Inr [(d + 19 * hour, d + 21 * hour)]"
    by (simp add: intersectAvailability_def valid_interval_def boundaries_def hour_def
          duration_def minutes_def less_prod_def less_eq_prod_def)
  show "intersectAvailability [[(d + 18 * hour, d + 19 * hour)], [(d + 19 * hour, d + 22 * hour)]] 60
     = Inr []"
    by (simp add: intersectAvailability_def valid_interval_def boundaries_def hour_def
          duration_def minutes_def less_prod_def less_eq_prod_def)
  show "list_all (list_all valid_interval) free \<longrightarrow>
        (\<exists>xs. intersectAvailability free m = Inr xs \<and> sorted (map fst xs))"
    by (simp add: intersectAvailability_def Let_def sorted_filter common_sorted)
  show "\<forall>xs. intersectAvailability free m = Inr xs \<longrightarrow> sorted (map fst xs)"
    by (auto simp: intersectAvailability_def Let_def sorted_filter common_sorted split: if_splits)
qed

theorem intersectAvailability_spec_witness:
  "list_all (list_all valid_interval) [[(0, 10), (20, 30)], [(5, 25)], [(0, 100)]]
   \<and> intersectAvailability [[(0, 10), (20, 30)], [(5, 25)], [(0, 100)]] 0 = Inr [(5, 10), (20, 25)]
   \<and> sorted (map fst [(5 :: int, 10 :: int), (20, 25)])
   \<and> intersectAvailability [[(18 * hour, 21 * hour)], [(19 * hour, 22 * hour)]] 60
     = Inr [(19 * hour, 21 * hour)]"
proof -
  have v: "list_all (list_all valid_interval) [[(0, 10), (20, 30)], [(5, 25)], [(0, 100)]]"
    by (simp add: valid_interval_def)
  have r: "intersectAvailability [[(0, 10), (20, 30)], [(5, 25)], [(0, 100)]] 0 = Inr [(5, 10), (20, 25)]"
    by (simp add: intersectAvailability_def valid_interval_def boundaries_def
          duration_def minutes_def less_prod_def less_eq_prod_def)
  from intersectAvailability_spec [of 0 "[[(0, 10), (20, 30)], [(5, 25)], [(0, 100)]]" 0] v r
  show ?thesis by simp
qed

lemma sorted_key_tuple:
  "sorted (map rank_key cs) \<longleftrightarrow>
     sorted_wrt (\<lambda>a b. duration a > duration b \<or> (duration a = duration b \<and> fst a \<le> fst b)) cs"
  unfolding sorted_map
  by (rule arg_cong [where f = "\<lambda>r. sorted_wrt r cs"]) (auto simp: rank_key_def less_eq_prod_def fun_eq_iff)

text \<open>
  Claim C9. Of two common intervals of one hour and three hours, with 60-minute slots
  and limit 2, the slot of the three-hour interval comes first. In general the
  returned windows are at most \<^verbatim>\<open>limit\<close>; each starts at the start of its own common
  interval, has the preferred length and fits in that interval; no common interval
  gives more than one window; and the windows follow the order of their intervals,
  longer first, and among equally long ones the earlier start first.
\<close>

theorem rankCandidates_spec:
  "rankCandidates [(s1, s1 + hour), (s2, s2 + 3 * hour)] 60 2 = Inr [(s2, s2 + hour), (s1, s1 + hour)]
   \<and> (\<forall>slots. rankCandidates common d limit = Inr slots \<longrightarrow>
        int (length slots) \<le> max 0 limit \<and>
        (\<exists>srcs. slots = map (\<lambda>c. (fst c, fst c + minutes d)) srcs \<and>
           mset srcs \<subseteq># mset common \<and>
           (\<forall>c \<in> set srcs. minutes d \<le> duration c) \<and>
           sorted_wrt (\<lambda>a b. duration a > duration b \<or> (duration a = duration b \<and> fst a \<le> fst b)) srcs))
   \<and> (list_all valid_interval common \<longrightarrow> (\<exists>slots. rankCandidates common d limit = Inr slots))"
proof (intro conjI allI impI)
  show "rankCandidates [(s1, s1 + hour), (s2, s2 + 3 * hour)] 60 2 = Inr [(s2, s2 + hour), (s1, s1 + hour)]"
    by (simp add: rankCandidates_def valid_interval_def rank_key_def hour_def duration_def
          minutes_def less_prod_def less_eq_prod_def numeral_2_eq_2)
  show "list_all valid_interval common \<Longrightarrow> \<exists>slots. rankCandidates common d limit = Inr slots"
    by (simp add: rankCandidates_def Let_def)
next
  fix slots
  assume a: "rankCandidates common d limit = Inr slots"
  let ?fit = "filter (\<lambda>c. minutes d \<le> duration c) common"
  let ?srcs = "take (nat limit) (sort_key rank_key ?fit)"
  from a have slots: "slots = map (\<lambda>c. (fst c, fst c + minutes d)) ?srcs"
    by (auto simp: rankCandidates_def Let_def split: if_splits)
  show "int (length slots) \<le> max 0 limit"
    unfolding slots by simp
  have sub: "mset ?srcs \<subseteq># mset common"
  proof -
    have "mset ?srcs \<subseteq># mset (sort_key rank_key ?fit)"
      by (metis append_take_drop_id mset_append mset_subset_eq_add_left)
    also have "\<dots> = mset ?fit" by simp
    also have "\<dots> \<subseteq># mset common" by simp
    finally show ?thesis .
  qed
  have fit: "\<forall>c \<in> set ?srcs. minutes d \<le> duration c"
    by (auto dest: in_set_takeD)
  have "sorted (map rank_key ?srcs)"
    unfolding take_map [symmetric] by (rule sorted_wrt_take) simp
  then have srt: "sorted_wrt (\<lambda>a b. duration a > duration b \<or> (duration a = duration b \<and> fst a \<le> fst b)) ?srcs"
    by (simp only: sorted_key_tuple)
  from slots sub fit srt
  show "\<exists>srcs. slots = map (\<lambda>c. (fst c, fst c + minutes d)) srcs \<and>
           mset srcs \<subseteq># mset common \<and>
           (\<forall>c \<in> set srcs. minutes d \<le> duration c) \<and>
           sorted_wrt (\<lambda>a b. duration a > duration b \<or> (duration a = duration b \<and> fst a \<le> fst b)) srcs"
    by blast
qed

theorem rankCandidates_spec_witness:
  "list_all valid_interval [(0, hour), (2 * hour, 5 * hour), (6 * hour, 9 * hour)]
   \<and> rankCandidates [(0, hour), (2 * hour, 5 * hour), (6 * hour, 9 * hour)] 90 1
       = Inr [(2 * hour, 2 * hour + minutes 90)]
   \<and> int (length [(2 * hour, 2 * hour + minutes 90)]) \<le> max 0 1"
proof -
  have r: "rankCandidates [(0, hour), (2 * hour, 5 * hour), (6 * hour, 9 * hour)] 90 1
       = Inr [(2 * hour, 2 * hour + minutes 90)]"
    by (simp add: rankCandidates_def valid_interval_def rank_key_def hour_def duration_def
          minutes_def less_prod_def less_eq_prod_def)
  have v: "list_all valid_interval [(0, hour), (2 * hour, 5 * hour), (6 * hour, 9 * hour)]"
    by (simp add: valid_interval_def hour_def)
  from rankCandidates_spec
         [of 0 0 "[(0, hour), (2 * hour, 5 * hour), (6 * hour, 9 * hour)]" 90 1] r
  have "int (length [(2 * hour, 2 * hour + minutes 90)]) \<le> max 0 1"
    by blast
  with v r show ?thesis by blast
qed

end
